theory Spec2Isabelle
  imports Main "HOL-Library.Sublist"
begin

section \<open>Strings\<close>

text \<open>
  A Python \<open>str\<close> is modelled as a \<^typ>\<open>string\<close>: a list of characters with code points
  0 to 255.  On that range \<open>str.lower\<close> adds 32 to the code points of \<open>A\<close> to \<open>Z\<close> and of
  the accented capitals 192 to 222 (215, the multiplication sign, apart) and leaves every
  other character alone.  Beyond that range \<open>str.lower\<close> is not a character-wise map (the
  Greek capital sigma is lowered according to its neighbours, and the dotted capital I
  becomes two code points), so the theorems below rely on the character-wise form only
  for ASCII letters, where it is the real one.
\<close>

definition lower_char :: "char \<Rightarrow> char" where
  "lower_char c =
     (let n = (of_char c :: nat) in
      if (65 \<le> n \<and> n \<le> 90) \<or> (192 \<le> n \<and> n \<le> 222 \<and> n \<noteq> 215)
      then char_of (n + 32) else c)"

definition lower :: "string \<Rightarrow> string" where
  "lower s = map lower_char s"

text \<open>\<open>s.startswith(p)\<close>.\<close>

fun startswith :: "string \<Rightarrow> string \<Rightarrow> bool" where
  "startswith s [] = True"
| "startswith [] (p # ps) = False"
| "startswith (c # cs) (p # ps) = (c = p \<and> startswith cs ps)"

text \<open>\<open>p in t\<close> on strings: \<open>p\<close> occurs in \<open>t\<close> as a contiguous piece.\<close>

fun contains :: "string \<Rightarrow> string \<Rightarrow> bool" where
  "contains [] p = (p = [])"
| "contains (c # cs) p = (startswith (c # cs) p \<or> contains cs p)"

text \<open>\<open>s.isascii()\<close>: every code point is below 128.\<close>

definition isascii :: "string \<Rightarrow> bool" where
  "isascii s = list_all (\<lambda>c. (of_char c :: nat) < 128) s"

text \<open>
  Two characters are the same up to the case of an ASCII letter: they are equal, or one is
  a letter \<open>A\<close> to \<open>Z\<close> and the other the small letter 32 code points above it.
\<close>

definition case_variant :: "char \<Rightarrow> char \<Rightarrow> bool" where
  "case_variant a b =
     (let m = (of_char a :: nat); n = (of_char b :: nat) in
      a = b \<or> (65 \<le> m \<and> m \<le> 90 \<and> n = m + 32) \<or> (65 \<le> n \<and> n \<le> 90 \<and> m = n + 32))"

text \<open>
  \<open>str.casefold()\<close>, the form Python offers for comparing strings without regard to case,
  given as the code points of the result.  On the code points 0 to 255 it agrees with
  \<open>str.lower\<close> but for the sharp s (223), folded to \<open>ss\<close>, and the micro sign (181),
  folded to the Greek small mu (956).  The program never calls it; it states what
  "equal up to letter case" means where lower-casing alone does not decide it.
\<close>

definition casefold_char :: "char \<Rightarrow> nat list" where
  "casefold_char c =
     (let n = (of_char c :: nat) in
      if n = 223 then [115, 115]
      else if n = 181 then [956]
      else [of_char (lower_char c)])"

definition casefold :: "string \<Rightarrow> nat list" where
  "casefold s = concat (map casefold_char s)"

text \<open>
  \<open>str.isspace\<close> on one character, and \<open>str.strip()\<close>, which drops the white space at
  both ends.
\<close>

definition isspace :: "char \<Rightarrow> bool" where
  "isspace c =
     (let n = (of_char c :: nat) in
      (9 \<le> n \<and> n \<le> 13) \<or> (28 \<le> n \<and> n \<le> 32) \<or> n = 133 \<or> n = 160)"

definition strip :: "string \<Rightarrow> string" where
  "strip s = rev (dropWhile isspace (rev (dropWhile isspace s)))"

section \<open>The rule file\<close>

text \<open>
  What \<open>json.load\<close> can give back.  Numbers are kept as integers; no function below looks
  inside a number.
\<close>

datatype json =
    JNull
  | JBool bool
  | JNum int
  | JStr string
  | JArr "json list"
  | JObj "(string \<times> json) list"

text \<open>\<open>isinstance(v, str)\<close>.\<close>

fun is_str :: "json \<Rightarrow> bool" where
  "is_str (JStr s) = True"
| "is_str v = False"

text \<open>
  The file \<open>rules.json\<close> is modelled by what opening and parsing it gives:
  it is not there, its bytes cannot be decoded, its text is not JSON, or it holds a JSON
  value.  \<open>json.dump\<close> followed by \<open>json.load\<close> gives the value back, so a write stores
  the value itself.
\<close>

datatype rules_file =
    Missing
  | Undecodable
  | Malformed
  | Doc json

definition DEFAULT_RULES :: "json list" where
  "DEFAULT_RULES = map JStr
     [''ddos'', ''exploit'', ''zero-day'', ''backdoor'', ''rootkit'',
      ''trojan'', ''password cracking'', ''brute-force'', ''bypass security'',
      ''unauthorized'', ''how to hack'', ''delete data'']"

text \<open>\<open>save_rules\<close> overwrites the file with the list.\<close>

definition save_rules :: "json list \<Rightarrow> rules_file \<Rightarrow> rules_file" where
  "save_rules rules_list f = Doc (JArr rules_list)"

text \<open>
  \<open>load_rules\<close> returns the list read and the file as it is left.  A missing file is first
  written with the defaults and then read; every exception of the \<open>try\<close> block (the file
  cannot be read, is not JSON, or the \<open>ValueError\<close> raised for a value that is not a list)
  writes the defaults and returns a copy of them.
\<close>

definition load_rules :: "rules_file \<Rightarrow> json list \<times> rules_file" where
  "load_rules f0 =
     (let f = (if f0 = Missing then save_rules DEFAULT_RULES f0 else f0) in
      case f of
        Doc (JArr rules) \<Rightarrow> (rules, f)
      | _ \<Rightarrow> (DEFAULT_RULES, save_rules DEFAULT_RULES f))"

section \<open>Regular expressions\<close>

text \<open>
  \<open>re.search\<close> belongs to the Python library, not to this program, so the matcher below
  takes it as an argument \<open>re_search pattern text\<close>: \<open>Some True\<close> for a match object,
  \<open>Some False\<close> for \<open>None\<close>, and \<open>None\<close> when the call raises (the pattern does not
  compile).  The general theorems hold for every such function.

  For concrete evaluations the library is modelled on a fragment of its pattern syntax:
  ordinary characters, \<open>.\<close> (any character but the newline), \<open>|\<close>, plain groups
  \<open>( )\<close>, the repetitions \<open>*\<close>, \<open>+\<close>, \<open>?\<close> and their lazy forms, and a backslash before a
  character that is not an ASCII letter or digit.  Character classes, counted repetition,
  anchors, \<open>(?\<close> extensions, possessive repetition and backslash-letter escapes are
  outside the fragment and answered \<open>Unsupported\<close>.
\<close>

datatype regex =
    Zero
  | One
  | Lit char
  | Dot
  | Alt regex regex
  | Conc regex regex
  | Star regex

fun nullable :: "regex \<Rightarrow> bool" where
  "nullable Zero = False"
| "nullable One = True"
| "nullable (Lit c) = False"
| "nullable Dot = False"
| "nullable (Alt r s) = (nullable r \<or> nullable s)"
| "nullable (Conc r s) = (nullable r \<and> nullable s)"
| "nullable (Star r) = True"

text \<open>What is left of \<open>r\<close> to match after reading the character \<open>c\<close>.\<close>

fun deriv :: "char \<Rightarrow> regex \<Rightarrow> regex" where
  "deriv c Zero = Zero"
| "deriv c One = Zero"
| "deriv c (Lit d) = (if c = d then One else Zero)"
| "deriv c Dot = (if c = CHR 0x0A then Zero else One)"
| "deriv c (Alt r s) = Alt (deriv c r) (deriv c s)"
| "deriv c (Conc r s) =
     (if nullable r then Alt (Conc (deriv c r) s) (deriv c s) else Conc (deriv c r) s)"
| "deriv c (Star r) = Conc (deriv c r) (Star r)"

text \<open>\<open>r\<close> matches at the start of \<open>t\<close>; \<open>r\<close> matches somewhere in \<open>t\<close>.\<close>

fun match_here :: "regex \<Rightarrow> string \<Rightarrow> bool" where
  "match_here r [] = nullable r"
| "match_here r (c # cs) = (nullable r \<or> match_here (deriv c r) cs)"

fun match_anywhere :: "regex \<Rightarrow> string \<Rightarrow> bool" where
  "match_anywhere r [] = nullable r"
| "match_anywhere r (c # cs) = (match_here r (c # cs) \<or> match_anywhere r cs)"

datatype compiled = Pattern regex | Invalid | Unsupported

text \<open>
  What the parser knows about the item before the cursor: nothing to repeat (start of a
  branch), an item that takes a repetition, an item already repeated, one already repeated
  and marked lazy.
\<close>

datatype last_item = Nothing | Item | Repeated | Lazy

type_synonym frame = "regex list \<times> regex list"

text \<open>
  A frame holds the finished branches of the group being read and the items of the
  current branch, both newest first.
\<close>

definition branch_re :: "regex list \<Rightarrow> regex" where
  "branch_re items = fold Conc items One"

definition frame_re :: "frame \<Rightarrow> regex" where
  "frame_re fr = fold Alt (fst fr) (branch_re (snd fr))"

definition repeat_re :: "char \<Rightarrow> regex \<Rightarrow> regex" where
  "repeat_re q r =
     (if q = CHR ''*'' then Star r
      else if q = CHR ''+'' then Conc r (Star r)
      else Alt r One)"

definition alnum_ascii :: "char \<Rightarrow> bool" where
  "alnum_ascii c =
     (let n = (of_char c :: nat) in
      (48 \<le> n \<and> n \<le> 57) \<or> (65 \<le> n \<and> n \<le> 90) \<or> (97 \<le> n \<and> n \<le> 122))"

text \<open>
  One pass over the pattern with the stack of enclosing groups.  \<open>esc\<close> says that the
  character before the cursor was an unescaped backslash.
\<close>

fun parse :: "frame list \<Rightarrow> frame \<Rightarrow> last_item \<Rightarrow> bool \<Rightarrow> string \<Rightarrow> compiled" where
  "parse stack fr li esc [] =
     (if esc \<or> stack \<noteq> [] then Invalid else Pattern (frame_re fr))"
| "parse stack fr li esc (c # cs) =
     (if esc then
        (if alnum_ascii c then Unsupported
         else parse stack (fst fr, Lit c # snd fr) Item False cs)
      else if c = CHR 0x5C then parse stack fr li True cs
      else if c = CHR ''('' then
        (if cs \<noteq> [] \<and> hd cs = CHR ''?'' then Unsupported
         else parse (fr # stack) ([], []) Nothing False cs)
      else if c = CHR '')'' then
        (case stack of
           [] \<Rightarrow> Invalid
         | outer # rest \<Rightarrow> parse rest (fst outer, frame_re fr # snd outer) Item False cs)
      else if c = CHR ''|'' then parse stack (branch_re (snd fr) # fst fr, []) Nothing False cs
      else if c = CHR ''*'' \<or> c = CHR ''+'' \<or> c = CHR ''?'' then
        (case li of
           Nothing \<Rightarrow> Invalid
         | Item \<Rightarrow>
             (case snd fr of
                [] \<Rightarrow> Invalid
              | a # as \<Rightarrow> parse stack (fst fr, repeat_re c a # as) Repeated False cs)
         | Repeated \<Rightarrow>
             (if c = CHR ''?'' then parse stack fr Lazy False cs
              else if c = CHR ''+'' then Unsupported
              else Invalid)
         | Lazy \<Rightarrow> Invalid)
      else if c = CHR ''['' \<or> c = CHR ''{'' \<or> c = CHR ''^'' \<or> c = CHR ''$'' then Unsupported
      else if c = CHR ''.'' then parse stack (fst fr, Dot # snd fr) Item False cs
      else parse stack (fst fr, Lit c # snd fr) Item False cs)"

definition re_compile :: "string \<Rightarrow> compiled" where
  "re_compile p = parse [] ([], []) Nothing False p"

definition re_search :: "string \<Rightarrow> string \<Rightarrow> bool option" where
  "re_search p t =
     (case re_compile p of
        Pattern r \<Rightarrow> Some (match_anywhere r t)
      | Invalid \<Rightarrow> None
      | Unsupported \<Rightarrow> None)"

section \<open>The matcher\<close>

text \<open>
  The exceptions that leave a function.  A rule that is not a string has no \<open>startswith\<close>;
  the handler of \<open>is_malicious\<close> then calls \<open>pat.lower()\<close>, which raises again, outside
  the \<open>try\<close>.
\<close>

datatype error = AttributeError

text \<open>
  One turn of the loop of \<open>is_malicious\<close> on the lower-cased text \<open>t\<close>: \<open>Inr True\<close> when
  the body returns \<open>True\<close>, \<open>Inr False\<close> when the loop goes on.
\<close>

fun rule_hits :: "(string \<Rightarrow> string \<Rightarrow> bool option) \<Rightarrow> string \<Rightarrow> json \<Rightarrow> error + bool" where
  "rule_hits search t (JStr pat) =
     (if startswith pat ''re:'' then
        (case search (drop 3 pat) t of
           Some found \<Rightarrow> Inr found
         | None \<Rightarrow> Inr (contains t (lower pat)))
      else Inr (contains t (lower pat)))"
| "rule_hits search t pat = Inl AttributeError"

fun scan_rules :: "(string \<Rightarrow> string \<Rightarrow> bool option) \<Rightarrow> string \<Rightarrow> json list \<Rightarrow> error + bool" where
  "scan_rules search t [] = Inr False"
| "scan_rules search t (pat # rest) =
     (case rule_hits search t pat of
        Inl e \<Rightarrow> Inl e
      | Inr found \<Rightarrow> if found then Inr True else scan_rules search t rest)"

definition is_malicious ::
  "(string \<Rightarrow> string \<Rightarrow> bool option) \<Rightarrow> json list \<Rightarrow> string \<Rightarrow> error + bool" where
  "is_malicious search blocked text = scan_rules search (lower text) blocked"

section \<open>The administrator's operations\<close>

text \<open>
  The state of the process: the content of \<open>rules.json\<close> and the global list
  \<open>BLOCKED_PATTERNS\<close> that \<open>is_malicious\<close> reads.
\<close>

record state =
  RULES_PATH :: rules_file
  BLOCKED_PATTERNS :: "json list"

text \<open>
  The message passed to \<open>flash\<close>.  \<open>Flash_removed v\<close> stands for
  \<open>f"Removed rule: {v}"\<close>, where \<open>v\<close> is whatever value was in the list.
\<close>

datatype flash = Flash string | Flash_removed json

text \<open>
  \<open>int(s)\<close> on a string: white space at both ends is dropped (the ASCII white space and the
  two other space characters below 256), then an optional sign and decimal digits, with
  single underscores between digits.  \<open>None\<close> is the \<open>ValueError\<close>, which CPython 3.11 also
  raises when the string has more than 4300 digits (leading zeros counted, sign and
  underscores not).
\<close>

definition int_space :: "char \<Rightarrow> bool" where
  "int_space c =
     (let n = (of_char c :: nat) in (9 \<le> n \<and> n \<le> 13) \<or> n = 32 \<or> n = 133 \<or> n = 160)"

definition isdigit :: "char \<Rightarrow> bool" where
  "isdigit c = (let n = (of_char c :: nat) in 48 \<le> n \<and> n \<le> 57)"

fun int_digits :: "nat \<Rightarrow> bool \<Rightarrow> string \<Rightarrow> nat option" where
  "int_digits acc after_digit [] = (if after_digit then Some acc else None)"
| "int_digits acc after_digit (c # cs) =
     (if isdigit c then int_digits (10 * acc + (of_char c - 48)) True cs
      else if c = CHR ''_'' \<and> after_digit then int_digits acc False cs
      else None)"

definition int_literal :: "string \<Rightarrow> nat option" where
  "int_literal ds =
     (if 4300 < length (filter isdigit ds) then None else int_digits 0 False ds)"

definition py_int :: "string \<Rightarrow> int option" where
  "py_int s =
     (case rev (dropWhile int_space (rev (dropWhile int_space s))) of
        [] \<Rightarrow> None
      | c # cs \<Rightarrow>
          if c = CHR ''-'' then map_option (\<lambda>n. - int n) (int_literal cs)
          else if c = CHR ''+'' then map_option int (int_literal cs)
          else map_option int (int_literal (c # cs)))"

text \<open>
  Each operation takes the answer of \<open>is_admin_logged_in()\<close> and the form field, and
  returns the new state and the message flashed, if any.
\<close>

definition admin_add_rule :: "bool \<Rightarrow> string option \<Rightarrow> state \<Rightarrow> state \<times> flash option" where
  "admin_add_rule logged_in form_pattern s =
     (if \<not> logged_in then (s, None)
      else
        let pattern = strip (case form_pattern of None \<Rightarrow> [] | Some p \<Rightarrow> p) in
        if pattern = [] then (s, Some (Flash ''Empty pattern cannot be added.''))
        else
          let (rules, f1) = load_rules (RULES_PATH s);
              f2 = save_rules (rules @ [JStr pattern]) f1;
              (loaded, f3) = load_rules f2
          in (\<lparr>RULES_PATH = f3, BLOCKED_PATTERNS = loaded\<rparr>,
              Some (Flash (''Added rule: '' @ pattern))))"

text \<open>
  \<open>admin_remove_rule\<close> has no \<open>global BLOCKED_PATTERNS\<close> declaration, so its assignment
  \<open>BLOCKED_PATTERNS = load_rules()\<close> binds a local name: the list read back is dropped
  when the function returns and the global list stays as it was.
\<close>

definition admin_remove_rule :: "bool \<Rightarrow> string option \<Rightarrow> state \<Rightarrow> state \<times> flash option" where
  "admin_remove_rule logged_in form_index s =
     (if \<not> logged_in then (s, None)
      else
        case py_int (case form_index of None \<Rightarrow> ''-1'' | Some v \<Rightarrow> v) of
          None \<Rightarrow> (s, Some (Flash ''Invalid index.''))
        | Some idx \<Rightarrow>
            let (rules, f1) = load_rules (RULES_PATH s) in
            if 0 \<le> idx \<and> idx < int (length rules) then
              let removed = rules ! nat idx;
                  f2 = save_rules (take (nat idx) rules @ drop (Suc (nat idx)) rules) f1;
                  (local_BLOCKED_PATTERNS, f3) = load_rules f2
              in (s\<lparr>RULES_PATH := f3\<rparr>, Some (Flash_removed removed))
            else (s\<lparr>RULES_PATH := f1\<rparr>, Some (Flash ''Index out of range.'')))"

definition admin_reload_rules :: "bool \<Rightarrow> state \<Rightarrow> state \<times> flash option" where
  "admin_reload_rules logged_in s =
     (if \<not> logged_in then (s, None)
      else
        let (loaded, f1) = load_rules (RULES_PATH s)
        in (\<lparr>RULES_PATH = f1, BLOCKED_PATTERNS = loaded\<rparr>,
            Some (Flash ''Rules reloaded from disk.'')))"

definition admin_reset_rules :: "bool \<Rightarrow> state \<Rightarrow> state \<times> flash option" where
  "admin_reset_rules logged_in s =
     (if \<not> logged_in then (s, None)
      else
        let f1 = save_rules DEFAULT_RULES (RULES_PATH s);
            (loaded, f2) = load_rules f1
        in (\<lparr>RULES_PATH = f2, BLOCKED_PATTERNS = loaded\<rparr>,
            Some (Flash ''Rules reset to default.'')))"

section \<open>Persistence\<close>

lemma load_rules_list [simp]: "load_rules (Doc (JArr rs)) = (rs, Doc (JArr rs))"
  by (simp add: load_rules_def)

lemma load_rules_Missing [simp]:
  "load_rules Missing = (DEFAULT_RULES, Doc (JArr DEFAULT_RULES))"
  by (simp add: load_rules_def save_rules_def)

lemma load_rules_not_list:
  "(\<And>rs. f \<noteq> Doc (JArr rs)) \<Longrightarrow> load_rules f = (DEFAULT_RULES, Doc (JArr DEFAULT_RULES))"
proof (cases f)
  case (Doc v)
  assume "\<And>rs. f \<noteq> Doc (JArr rs)"
  with Doc show ?thesis
    by (cases v) (simp_all add: load_rules_def save_rules_def)
qed (simp_all add: load_rules_def save_rules_def)

text \<open>
  C7: for every list of strings \<open>R\<close>, \<open>save(R)\<close> followed by \<open>load()\<close> returns \<open>R\<close>, whatever
  the file held before, and the file still holds \<open>R\<close>.
\<close>

theorem C7_save_load_roundtrip:
  "load_rules (save_rules (map JStr R) f) = (map JStr R, Doc (JArr (map JStr R)))"
  by (simp add: save_rules_def)

text \<open>
  C4: when the file cannot be decoded, is not JSON, or holds a JSON value that is not a
  list, \<open>load_rules\<close> returns exactly the default rules and leaves the file holding
  exactly the default rules.
\<close>

theorem C4_corrupt_store_reset:
  assumes "f = Undecodable \<or> f = Malformed \<or> (\<exists>v. f = Doc v \<and> (\<forall>rs. v \<noteq> JArr rs))"
  shows "load_rules f = (DEFAULT_RULES, Doc (JArr DEFAULT_RULES))"
proof (rule load_rules_not_list)
  fix rs
  from assms show "f \<noteq> Doc (JArr rs)" by auto
qed

theorem C4_corrupt_store_reset_witness:
  "load_rules (Doc (JObj [(''rules'', JArr [JStr ''ddos''])]))
     = (DEFAULT_RULES, Doc (JArr DEFAULT_RULES))
   \<and> load_rules Malformed = (DEFAULT_RULES, Doc (JArr DEFAULT_RULES))
   \<and> load_rules Undecodable = (DEFAULT_RULES, Doc (JArr DEFAULT_RULES))"
proof -
  have "load_rules (Doc (JObj [(''rules'', JArr [JStr ''ddos''])]))
          = (DEFAULT_RULES, Doc (JArr DEFAULT_RULES))"
    by (rule C4_corrupt_store_reset) simp
  moreover have "load_rules Malformed = (DEFAULT_RULES, Doc (JArr DEFAULT_RULES))"
    by (rule C4_corrupt_store_reset) simp
  moreover have "load_rules Undecodable = (DEFAULT_RULES, Doc (JArr DEFAULT_RULES))"
    by (rule C4_corrupt_store_reset) simp
  ultimately show ?thesis by simp
qed

text \<open>
  C6 as stated (every list returned by \<open>load_rules\<close> holds strings only, and any other
  content is replaced by the defaults) fails: \<open>load_rules\<close> tests the loaded value with
  \<open>isinstance(rules, list)\<close> and nothing else, so a file holding the list \<open>[1]\<close> is
  returned as it is and stays on disk.
\<close>

theorem C6_counterexample:
  "\<not> list_all is_str (fst (load_rules (Doc (JArr [JNum 1]))))
   \<and> snd (load_rules (Doc (JArr [JNum 1]))) = Doc (JArr [JNum 1])"
  by simp

lemma DEFAULT_RULES_strings: "list_all is_str DEFAULT_RULES"
  by (simp add: DEFAULT_RULES_def)

text \<open>
  C6, amended: every value returned by \<open>load_rules\<close> is a list.  When the file holds a
  JSON list, that list is returned with its elements unchecked and the file is left as it
  is; any other content (missing, unreadable, not JSON, not a list) is replaced by the
  default rules, which are returned and are all strings.  So the returned list holds
  strings only whenever the persisted list does.
\<close>

theorem C6_load_returns_list:
  "(case f of
      Doc (JArr rs) \<Rightarrow> load_rules f = (rs, f)
    | _ \<Rightarrow> load_rules f = (DEFAULT_RULES, Doc (JArr DEFAULT_RULES))
           \<and> list_all is_str (fst (load_rules f)))"
proof (cases f)
  case (Doc v)
  then show ?thesis
  proof (cases v)
    case (JArr rs)
    with Doc show ?thesis by simp
  qed (simp_all add: load_rules_not_list DEFAULT_RULES_strings)
qed (simp_all add: load_rules_not_list DEFAULT_RULES_strings)

theorem C6_load_returns_list_witness:
  "load_rules (Doc (JArr [JStr ''ddos'', JNum 7])) = ([JStr ''ddos'', JNum 7], Doc (JArr [JStr ''ddos'', JNum 7]))
   \<and> load_rules (Doc (JStr ''ddos'')) = (DEFAULT_RULES, Doc (JArr DEFAULT_RULES))
   \<and> list_all is_str (fst (load_rules (Doc (JStr ''ddos''))))"
  using C6_load_returns_list [of "Doc (JArr [JStr ''ddos'', JNum 7])"]
        C6_load_returns_list [of "Doc (JStr ''ddos'')"]
  by (simp add: DEFAULT_RULES_strings)

section \<open>The matcher\<close>

lemma startswith_prefix: "startswith s p \<longleftrightarrow> prefix p s"
  by (induction s p rule: startswith.induct) auto

lemma contains_sublist: "contains t p \<longleftrightarrow> sublist p t"
  by (induction t) (simp_all add: sublist_Cons_right startswith_prefix del: startswith.simps)

lemma startswith_append [simp]: "startswith (p @ s) p"
  by (simp add: startswith_prefix)

lemma case_variant_lower: "case_variant a b \<Longrightarrow> lower_char a = lower_char b"
proof -
  assume "case_variant a b"
  then consider "a = b"
    | "65 \<le> (of_char a :: nat)" "(of_char a :: nat) \<le> 90" "(of_char b :: nat) = of_char a + 32"
    | "65 \<le> (of_char b :: nat)" "(of_char b :: nat) \<le> 90" "(of_char a :: nat) = of_char b + 32"
    by (auto simp: case_variant_def Let_def)
  then show ?thesis
  proof cases
    case 1
    then show ?thesis by simp
  next
    case 2
    have "char_of ((of_char a :: nat) + 32) = char_of (of_char b :: nat)"
      using 2(3) by simp
    then have "char_of ((of_char a :: nat) + 32) = b" by simp
    with 2 show ?thesis by (simp add: lower_char_def Let_def)
  next
    case 3
    have "char_of ((of_char b :: nat) + 32) = char_of (of_char a :: nat)"
      using 3(3) by simp
    then have "char_of ((of_char b :: nat) + 32) = a" by simp
    with 3 show ?thesis by (simp add: lower_char_def Let_def)
  qed
qed

lemma case_variants_lower: "list_all2 case_variant t' t \<Longrightarrow> lower t' = lower t"
  by (induction rule: list_all2_induct) (simp_all add: lower_def case_variant_lower)

text \<open>
  On ASCII strings lower-casing works character by character, so there \<open>lower p\<close> occurs
  in \<open>lower t\<close> exactly when some piece of \<open>t\<close> has the lower-casing of \<open>p\<close>.
\<close>

lemma sublist_lower_ascii:
  assumes "isascii p" and "isascii t"
  shows "sublist (lower p) (lower t) \<longleftrightarrow> (\<exists>u. sublist u t \<and> lower u = lower p)"
proof
  assume "sublist (lower p) (lower t)"
  then obtain u where "sublist u t" and "lower p = map lower_char u"
    unfolding lower_def using sublist_map_rightE by blast
  then show "\<exists>u. sublist u t \<and> lower u = lower p"
    by (auto simp: lower_def)
next
  assume "\<exists>u. sublist u t \<and> lower u = lower p"
  then obtain u where u: "sublist u t" "lower u = lower p" by blast
  from u(1) obtain ps ss where "t = ps @ u @ ss" by (auto simp: sublist_def)
  then have "lower t = lower ps @ lower p @ lower ss"
    using u(2) by (simp add: lower_def)
  then show "sublist (lower p) (lower t)" by (auto simp: sublist_def)
qed

lemma rule_hits_string: "\<exists>b. rule_hits search t (JStr pat) = Inr b"
  by (simp split: option.split)

lemma scan_rules_strings:
  "scan_rules search t (map JStr R)
     = Inr (\<exists>pat\<in>set R. rule_hits search t (JStr pat) = Inr True)"
proof (induction R)
  case Nil
  show ?case by simp
next
  case (Cons pat R)
  obtain b where b: "rule_hits search t (JStr pat) = Inr b"
    using rule_hits_string by blast
  show ?case
    using Cons.IH b by (cases b) (simp_all del: rule_hits.simps)
qed

lemma scan_rules_hit_append:
  "scan_rules search t R = Inr True \<Longrightarrow> scan_rules search t (R @ extra) = Inr True"
proof (induction R)
  case Nil
  then show ?case by simp
next
  case (Cons pat R)
  show ?case
  proof (cases "rule_hits search t pat")
    case (Inl e)
    with Cons.prems show ?thesis by simp
  next
    case (Inr b)
    with Cons show ?thesis by (cases b) (simp_all del: rule_hits.simps)
  qed
qed

lemma scan_rules_skip:
  "rule_hits search t pat = Inr False \<Longrightarrow>
   scan_rules search t (map JStr pre @ pat # rest) = scan_rules search t (map JStr pre @ rest)"
proof (induction pre)
  case Nil
  then show ?case by simp
next
  case (Cons p pre)
  obtain b where b: "rule_hits search t (JStr p) = Inr b"
    using rule_hits_string by blast
  show ?case
    using Cons b by (cases b) (simp_all del: rule_hits.simps)
qed

lemma literal_rule_hits:
  "\<not> startswith pat ''re:'' \<Longrightarrow>
   rule_hits search t (JStr pat) = Inr (sublist (lower pat) t)"
  by (simp add: contains_sublist)

lemma ascii_rule_hits:
  "\<not> startswith pat ''re:'' \<Longrightarrow> isascii pat \<Longrightarrow> isascii T \<Longrightarrow>
   rule_hits search (lower T) (JStr pat) = Inr True
     \<longleftrightarrow> (\<exists>u. sublist u T \<and> lower u = lower pat)"
  by (simp add: literal_rule_hits sublist_lower_ascii del: rule_hits.simps)

text \<open>
  C3 as stated fails on its middle part: a rule without the \<open>re:\<close> marker is not matched
  whenever it occurs in the text up to letter case.  The rule made of the sharp s alone
  has the same case-folded form as the piece \<open>SS\<close> of the text \<open>STRASSE\<close> (which is what
  upper-casing makes of it), yet \<open>is_malicious\<close> lets the text pass: it lower-cases both
  sides, and lower-casing leaves the sharp s alone.
\<close>

theorem C3_counterexample:
  "\<not> startswith [CHR 0xDF] ''re:''
   \<and> sublist ''SS'' ''STRASSE''
   \<and> casefold ''SS'' = casefold [CHR 0xDF]
   \<and> is_malicious re_search [JStr [CHR 0xDF]] ''STRASSE'' = Inr False"
  by code_simp

text \<open>
  C3, amended: for every list of string rules \<open>R\<close> and every text \<open>T\<close>, \<open>is_malicious\<close>
  returns \<open>True\<close> exactly when some rule of \<open>R\<close> matches the text and \<open>False\<close> otherwise.  A
  rule without the \<open>re:\<close> marker matches exactly when its lower-cased form occurs in the
  lower-cased text; when rule and text are ASCII, that is exactly when some piece of the
  text equals the rule up to letter case.  Once the verdict is \<open>True\<close>, rules appended after
  the list (of whatever kind) do not change it, since the loop returns at the first rule
  that matches.
\<close>

theorem C3_check_iff_some_rule_matches:
  "is_malicious search (map JStr R) T
     = Inr (\<exists>pat\<in>set R. rule_hits search (lower T) (JStr pat) = Inr True)
   \<and> (\<forall>pat. \<not> startswith pat ''re:'' \<longrightarrow>
         (rule_hits search (lower T) (JStr pat) = Inr True
            \<longleftrightarrow> sublist (lower pat) (lower T)))
   \<and> (\<forall>pat. \<not> startswith pat ''re:'' \<and> isascii pat \<and> isascii T \<longrightarrow>
         (rule_hits search (lower T) (JStr pat) = Inr True
            \<longleftrightarrow> (\<exists>u. sublist u T \<and> lower u = lower pat)))
   \<and> (is_malicious search (map JStr R) T = Inr True \<longrightarrow>
         is_malicious search (map JStr R @ extra) T = Inr True)"
proof (intro conjI allI impI)
  show "is_malicious search (map JStr R) T
          = Inr (\<exists>pat\<in>set R. rule_hits search (lower T) (JStr pat) = Inr True)"
    unfolding is_malicious_def by (rule scan_rules_strings)
next
  fix pat
  assume "\<not> startswith pat ''re:''"
  then have "rule_hits search (lower T) (JStr pat) = Inr (sublist (lower pat) (lower T))"
    by (rule literal_rule_hits)
  then show "rule_hits search (lower T) (JStr pat) = Inr True
               \<longleftrightarrow> sublist (lower pat) (lower T)"
    by (simp del: rule_hits.simps)
next
  fix pat
  assume "\<not> startswith pat ''re:'' \<and> isascii pat \<and> isascii T"
  then have "\<not> startswith pat ''re:''" and "isascii pat" and "isascii T" by blast+
  then show "rule_hits search (lower T) (JStr pat) = Inr True
               \<longleftrightarrow> (\<exists>u. sublist u T \<and> lower u = lower pat)"
    by (rule ascii_rule_hits)
next
  assume "is_malicious search (map JStr R) T = Inr True"
  then show "is_malicious search (map JStr R @ extra) T = Inr True"
    unfolding is_malicious_def by (rule scan_rules_hit_append)
qed

theorem C3_check_iff_some_rule_matches_witness:
  "is_malicious re_search (map JStr [''ddos'', ''Exploit'']) ''how to EXPLOIT a bug'' = Inr True
   \<and> is_malicious re_search (map JStr [''ddos'', ''Exploit'']) ''hello'' = Inr False
   \<and> isascii ''Exploit'' \<and> isascii ''how to EXPLOIT a bug''
   \<and> sublist (lower ''Exploit'') (lower ''how to EXPLOIT a bug'')
   \<and> sublist ''EXPLOIT'' ''how to EXPLOIT a bug'' \<and> lower ''EXPLOIT'' = lower ''Exploit''
   \<and> rule_hits re_search (lower ''how to EXPLOIT a bug'') (JStr ''Exploit'') = Inr True
   \<and> is_malicious re_search (map JStr [''ddos'', ''Exploit''] @ [JNum 1]) ''how to EXPLOIT a bug''
       = Inr True"
proof -
  note c3 = C3_check_iff_some_rule_matches
    [of re_search "[''ddos'', ''Exploit'']" "''how to EXPLOIT a bug''" "[JNum 1]"]
  have plain: "\<not> startswith ''Exploit'' ''re:''" by code_simp
  have asc: "isascii ''Exploit'' \<and> isascii ''how to EXPLOIT a bug''" by code_simp
  have low: "sublist (lower ''Exploit'') (lower ''how to EXPLOIT a bug'')" by code_simp
  have sub: "sublist ''EXPLOIT'' ''how to EXPLOIT a bug'' \<and> lower ''EXPLOIT'' = lower ''Exploit''"
    by code_simp
  from c3 plain low have hit:
    "rule_hits re_search (lower ''how to EXPLOIT a bug'') (JStr ''Exploit'') = Inr True"
    by blast
  have yes: "is_malicious re_search (map JStr [''ddos'', ''Exploit'']) ''how to EXPLOIT a bug''
               = Inr True"
    using c3 hit by (simp del: rule_hits.simps)
  have no: "is_malicious re_search (map JStr [''ddos'', ''Exploit'']) ''hello'' = Inr False"
    by code_simp
  from c3 yes have
    "is_malicious re_search (map JStr [''ddos'', ''Exploit''] @ [JNum 1]) ''how to EXPLOIT a bug''
       = Inr True"
    by blast
  with yes no asc low sub hit show ?thesis by blast
qed

lemma failed_regex_rule_hits:
  "startswith pat ''re:'' \<Longrightarrow> search (drop 3 pat) t = None \<Longrightarrow>
   rule_hits search t (JStr pat) = Inr (sublist (lower pat) t)"
  by (simp add: contains_sublist)

text \<open>
  C5: for every list of string rules and every text, \<open>is_malicious\<close> returns a verdict and
  raises nothing, whatever \<open>re.search\<close> does (it may raise on every pattern).  A rule
  \<open>pat\<close> with the \<open>re:\<close> marker whose pattern makes \<open>re.search\<close> raise is matched by the
  handler as a literal: the whole rule text, marker included, lower-cased, is looked for in
  the lower-cased text.  The other rules of the list, before and after it, are evaluated as
  usual.
\<close>

theorem C5_check_never_raises:
  "(\<exists>b. is_malicious search (map JStr R) T = Inr b)
   \<and> (startswith pat ''re:'' \<and> search (drop 3 pat) (lower T) = None \<longrightarrow>
        rule_hits search (lower T) (JStr pat) = Inr (sublist (lower pat) (lower T))
        \<and> is_malicious search (map JStr (pre @ pat # rest)) T
            = Inr (sublist (lower pat) (lower T)
                   \<or> (\<exists>q\<in>set (pre @ rest). rule_hits search (lower T) (JStr q) = Inr True)))"
proof (intro conjI impI)
  show "\<exists>b. is_malicious search (map JStr R) T = Inr b"
    unfolding is_malicious_def by (simp add: scan_rules_strings)
next
  assume "startswith pat ''re:'' \<and> search (drop 3 pat) (lower T) = None"
  then show "rule_hits search (lower T) (JStr pat) = Inr (sublist (lower pat) (lower T))"
    by (simp add: failed_regex_rule_hits del: rule_hits.simps)
next
  assume "startswith pat ''re:'' \<and> search (drop 3 pat) (lower T) = None"
  then have hit: "rule_hits search (lower T) (JStr pat) = Inr (sublist (lower pat) (lower T))"
    by (simp add: failed_regex_rule_hits del: rule_hits.simps)
  have "is_malicious search (map JStr (pre @ pat # rest)) T
          = Inr (\<exists>q\<in>set (pre @ pat # rest). rule_hits search (lower T) (JStr q) = Inr True)"
    unfolding is_malicious_def by (rule scan_rules_strings)
  also have "(\<exists>q\<in>set (pre @ pat # rest). rule_hits search (lower T) (JStr q) = Inr True)
               \<longleftrightarrow> (sublist (lower pat) (lower T)
                    \<or> (\<exists>q\<in>set (pre @ rest). rule_hits search (lower T) (JStr q) = Inr True))"
    using hit by (auto simp del: rule_hits.simps)
  finally show "is_malicious search (map JStr (pre @ pat # rest)) T
                  = Inr (sublist (lower pat) (lower T)
                         \<or> (\<exists>q\<in>set (pre @ rest). rule_hits search (lower T) (JStr q) = Inr True))" .
qed

theorem C5_check_never_raises_witness:
  "startswith ''re:(ab'' ''re:''
   \<and> re_search (drop 3 ''re:(ab'') (lower ''An Exploit'') = None
   \<and> rule_hits re_search (lower ''An Exploit'') (JStr ''re:(ab'') = Inr False
   \<and> is_malicious re_search (map JStr ([''ddos''] @ ''re:(ab'' # [''exploit''])) ''An Exploit''
       = Inr True"
proof -
  have sw: "startswith ''re:(ab'' ''re:''" by code_simp
  have err: "re_search (drop 3 ''re:(ab'') (lower ''An Exploit'') = None" by code_simp
  have lit: "\<not> sublist (lower ''re:(ab'') (lower ''An Exploit'')" by code_simp
  have later: "rule_hits re_search (lower ''An Exploit'') (JStr ''exploit'') = Inr True"
    by code_simp
  note c5 = C5_check_never_raises
    [of re_search "[]" "''An Exploit''" "''re:(ab''" "[''ddos'']" "[''exploit'']"]
  from c5 sw err lit have "rule_hits re_search (lower ''An Exploit'') (JStr ''re:(ab'') = Inr False"
    by (simp del: rule_hits.simps)
  moreover from c5 sw err later have
    "is_malicious re_search (map JStr ([''ddos''] @ ''re:(ab'' # [''exploit''])) ''An Exploit''
       = Inr True"
    by (simp del: rule_hits.simps)
  ultimately show ?thesis using sw err by blast
qed

text \<open>
  C10: when the list of string rules contains the empty string, \<open>is_malicious\<close> returns
  \<open>True\<close> for every text: the empty string carries no \<open>re:\<close> marker and occurs in every
  text, and no rule before it can raise.
\<close>

theorem C10_empty_rule_blocks_everything:
  "[] \<in> set R \<Longrightarrow> is_malicious search (map JStr R) T = Inr True"
proof -
  assume mem: "[] \<in> set R"
  have "rule_hits search (lower T) (JStr []) = Inr True"
    by (simp add: contains_sublist lower_def)
  with mem have "\<exists>pat\<in>set R. rule_hits search (lower T) (JStr pat) = Inr True"
    by blast
  then show ?thesis
    unfolding is_malicious_def by (simp add: scan_rules_strings del: rule_hits.simps)
qed

theorem C10_empty_rule_blocks_everything_witness:
  "[] \<in> set [''ddos'', []] \<and> is_malicious re_search (map JStr [''ddos'', []]) ''hello'' = Inr True"
proof -
  have mem: "[] \<in> set [''ddos'', []]" by simp
  from C10_empty_rule_blocks_everything [OF mem, of re_search "''hello''"] mem
  show ?thesis by blast
qed

text \<open>
  C2 as stated fails: the pattern of a \<open>re:\<close> rule is handed to \<open>re.search\<close> as it is
  written, with no flag, and only the text is lower-cased.  The patterns \<open>Exploit\<close> and
  \<open>exploit\<close> differ in letter case only and both compile, yet on the text
  \<open>an exploit\<close> the first does not match and the second does.  Nor is the case of the text
  always immaterial: the rule \<open>re:\<close> followed by the sharp s blocks the text made of the
  sharp s, but not its upper-case form \<open>SS\<close>, which has the same case-folded form.
\<close>

theorem C2_counterexample:
  "lower ''Exploit'' = lower ''exploit''
   \<and> re_search ''Exploit'' (lower ''an exploit'') = Some False
   \<and> is_malicious re_search [JStr ''re:Exploit''] ''an exploit'' = Inr False
   \<and> is_malicious re_search [JStr ''re:exploit''] ''an exploit'' = Inr True
   \<and> casefold ''SS'' = casefold [CHR 0xDF]
   \<and> is_malicious re_search [JStr (''re:'' @ [CHR 0xDF])] [CHR 0xDF] = Inr True
   \<and> is_malicious re_search [JStr (''re:'' @ [CHR 0xDF])] ''SS'' = Inr False"
  by code_simp

text \<open>
  C2, amended: for every rule \<open>re:\<close> followed by a pattern \<open>p\<close> that compiles and every
  text \<open>t\<close>, the rule matches exactly when \<open>re.search\<close> finds \<open>p\<close>, as written and with
  the ordinary case-sensitive semantics, somewhere in the lower-cased text \<open>t.lower()\<close>.
  Changing the case of ASCII letters of the text, character by character, never changes
  the verdict of a rule list; changing the letter case of the pattern can, and so can a
  change of case of the text that lower-casing does not undo.
\<close>

theorem C2_regex_rule_verdict:
  "(search p (lower t) = Some b \<longrightarrow> is_malicious search [JStr (''re:'' @ p)] t = Inr b)
   \<and> (list_all2 case_variant t' t \<longrightarrow> is_malicious search R t' = is_malicious search R t)"
proof (intro conjI impI)
  assume "search p (lower t) = Some b"
  then show "is_malicious search [JStr (''re:'' @ p)] t = Inr b"
    by (simp add: is_malicious_def)
next
  assume "list_all2 case_variant t' t"
  then have "lower t' = lower t" by (rule case_variants_lower)
  then show "is_malicious search R t' = is_malicious search R t"
    by (simp add: is_malicious_def)
qed

theorem C2_regex_rule_verdict_witness:
  "re_search ''zero.day'' (lower ''A Zero-Day bug'') = Some True
   \<and> is_malicious re_search [JStr (''re:'' @ ''zero.day'')] ''A Zero-Day bug'' = Inr True
   \<and> list_all2 case_variant ''a ZERO-DAY bug'' ''A Zero-Day bug''
   \<and> is_malicious re_search [JStr ''re:zero.day''] ''a ZERO-DAY bug''
       = is_malicious re_search [JStr ''re:zero.day''] ''A Zero-Day bug''"
proof -
  have found: "re_search ''zero.day'' (lower ''A Zero-Day bug'') = Some True" by code_simp
  have same: "list_all2 case_variant ''a ZERO-DAY bug'' ''A Zero-Day bug''" by code_simp
  note c2 = C2_regex_rule_verdict
    [of re_search "''zero.day''" "''A Zero-Day bug''" True "''a ZERO-DAY bug''"
        "[JStr ''re:zero.day'']"]
  from c2 found have "is_malicious re_search [JStr (''re:'' @ ''zero.day'')] ''A Zero-Day bug'' = Inr True"
    by blast
  moreover from c2 same have
    "is_malicious re_search [JStr ''re:zero.day''] ''a ZERO-DAY bug''
       = is_malicious re_search [JStr ''re:zero.day''] ''A Zero-Day bug''"
    by blast
  ultimately show ?thesis using found same by blast
qed

section \<open>The administrator's operations\<close>

lemma strip_empty: "strip p = [] \<longleftrightarrow> (\<forall>c\<in>set p. isspace c)"
proof
  assume "strip p = []"
  then have "dropWhile isspace (rev (dropWhile isspace p)) = []"
    by (simp add: strip_def)
  then have "\<forall>c\<in>set (dropWhile isspace p). isspace c"
    by simp
  then have "dropWhile isspace p = []"
    by (metis dropWhile_eq_Nil_conv hd_dropWhile hd_in_set)
  then show "\<forall>c\<in>set p. isspace c" by simp
next
  assume "\<forall>c\<in>set p. isspace c"
  then have d: "dropWhile isspace p = []" by simp
  show "strip p = []" unfolding strip_def d by simp
qed

text \<open>
  C9: an add request whose pattern is empty or all white space (or absent from the form)
  is answered before \<open>load_rules\<close> or \<open>save_rules\<close> is called: the file and the global
  list are exactly as before, and the administrator is told
  \<open>Empty pattern cannot be added.\<close>
\<close>

theorem C9_empty_pattern_rejected:
  "(\<forall>c\<in>set p. isspace c) \<Longrightarrow>
   admin_add_rule True (Some p) s = (s, Some (Flash ''Empty pattern cannot be added.''))
   \<and> admin_add_rule True None s = (s, Some (Flash ''Empty pattern cannot be added.''))"
  by (simp add: admin_add_rule_def strip_empty)

theorem C9_empty_pattern_rejected_witness:
  "isspace CHR '' '' \<and> isspace CHR 0x09 \<and> isspace CHR 0x0A
   \<and> admin_add_rule True (Some [CHR '' '', CHR 0x09, CHR 0x0A])
        \<lparr>RULES_PATH = Malformed, BLOCKED_PATTERNS = [JStr ''ddos'']\<rparr>
       = (\<lparr>RULES_PATH = Malformed, BLOCKED_PATTERNS = [JStr ''ddos'']\<rparr>,
          Some (Flash ''Empty pattern cannot be added.''))"
proof -
  have sp: "\<forall>c\<in>set [CHR '' '', CHR 0x09, CHR 0x0A]. isspace c"
    by (simp add: isspace_def)
  have each: "isspace CHR '' '' \<and> isspace CHR 0x09 \<and> isspace CHR 0x0A"
    by (simp add: isspace_def)
  from C9_empty_pattern_rejected [OF sp] each show ?thesis by blast
qed

lemma remove_keeps_global:
  "BLOCKED_PATTERNS (fst (admin_remove_rule logged_in v s)) = BLOCKED_PATTERNS s"
  by (simp add: admin_remove_rule_def Let_def split: option.split prod.split)

text \<open>
  C8: let the file hold a rule list.  A remove request whose index is not a number is
  answered \<open>Invalid index.\<close>, and one whose index is negative, at least the number of rules,
  or absent from the form (read as \<open>-1\<close>) is answered \<open>Index out of range.\<close>; in each case
  the file and the global list are exactly as before and nothing is raised.
\<close>

theorem C8_bad_index_changes_nothing:
  assumes "RULES_PATH s = Doc (JArr rules)"
  shows "(py_int v = None \<longrightarrow>
            admin_remove_rule True (Some v) s = (s, Some (Flash ''Invalid index.'')))
         \<and> (\<forall>i. py_int v = Some i \<and> (i < 0 \<or> int (length rules) \<le> i) \<longrightarrow>
            admin_remove_rule True (Some v) s = (s, Some (Flash ''Index out of range.'')))
         \<and> admin_remove_rule True None s = (s, Some (Flash ''Index out of range.''))"
proof (intro conjI allI impI)
  assume "py_int v = None"
  then show "admin_remove_rule True (Some v) s = (s, Some (Flash ''Invalid index.''))"
    by (simp add: admin_remove_rule_def)
next
  fix i
  assume "py_int v = Some i \<and> (i < 0 \<or> int (length rules) \<le> i)"
  with assms show "admin_remove_rule True (Some v) s = (s, Some (Flash ''Index out of range.''))"
    by (cases s) (auto simp add: admin_remove_rule_def)
next
  have "py_int ''-1'' = Some (- 1)" by code_simp
  with assms show "admin_remove_rule True None s = (s, Some (Flash ''Index out of range.''))"
    by (cases s) (simp add: admin_remove_rule_def)
qed

theorem C8_bad_index_changes_nothing_witness:
  "RULES_PATH \<lparr>RULES_PATH = Doc (JArr (map JStr [''ddos'', ''exploit'', ''rootkit''])),
               BLOCKED_PATTERNS = map JStr [''ddos'', ''exploit'', ''rootkit'']\<rparr>
     = Doc (JArr (map JStr [''ddos'', ''exploit'', ''rootkit'']))
   \<and> py_int ''99'' = Some 99
   \<and> int (length (map JStr [''ddos'', ''exploit'', ''rootkit''])) \<le> 99
   \<and> admin_remove_rule True (Some ''99'')
        \<lparr>RULES_PATH = Doc (JArr (map JStr [''ddos'', ''exploit'', ''rootkit''])),
         BLOCKED_PATTERNS = map JStr [''ddos'', ''exploit'', ''rootkit'']\<rparr>
       = (\<lparr>RULES_PATH = Doc (JArr (map JStr [''ddos'', ''exploit'', ''rootkit''])),
           BLOCKED_PATTERNS = map JStr [''ddos'', ''exploit'', ''rootkit'']\<rparr>,
          Some (Flash ''Index out of range.''))"
proof -
  let ?rules = "map JStr [''ddos'', ''exploit'', ''rootkit'']"
  let ?s = "\<lparr>RULES_PATH = Doc (JArr ?rules), BLOCKED_PATTERNS = ?rules\<rparr>"
  have disk: "RULES_PATH ?s = Doc (JArr ?rules)" by simp
  have idx: "py_int ''99'' = Some 99" by code_simp
  have far: "int (length ?rules) \<le> 99" by simp
  from C8_bad_index_changes_nothing [OF disk, of "''99''"] idx far
  have "admin_remove_rule True (Some ''99'') ?s = (?s, Some (Flash ''Index out of range.''))"
    by blast
  with disk idx far show ?thesis by blast
qed

lemma add_refreshes_global:
  assumes "strip p \<noteq> []"
  shows "RULES_PATH (fst (admin_add_rule True (Some p) s))
           = Doc (JArr (BLOCKED_PATTERNS (fst (admin_add_rule True (Some p) s))))"
  using assms
  by (simp add: admin_add_rule_def save_rules_def Let_def split: prod.split)

text \<open>
  C1 (the claim is right, the code is not): after a remove with an index in range the
  global list read by \<open>is_malicious\<close> should equal the list on disk.  With \<open>ddos\<close> and
  \<open>exploit\<close> on disk and in memory, removing index 0 leaves only \<open>exploit\<close> on disk, but
  the global list still holds both rules and a text with \<open>ddos\<close> in it is still blocked,
  while the list on disk would let it pass.
\<close>

theorem C1_remove_leaves_global_stale:
  "admin_remove_rule True (Some ''0'')
      \<lparr>RULES_PATH = Doc (JArr [JStr ''ddos'', JStr ''exploit'']),
       BLOCKED_PATTERNS = [JStr ''ddos'', JStr ''exploit'']\<rparr>
     = (\<lparr>RULES_PATH = Doc (JArr [JStr ''exploit'']),
         BLOCKED_PATTERNS = [JStr ''ddos'', JStr ''exploit'']\<rparr>,
        Some (Flash_removed (JStr ''ddos'')))
   \<and> is_malicious re_search [JStr ''ddos'', JStr ''exploit''] ''a ddos attack'' = Inr True
   \<and> is_malicious re_search [JStr ''exploit''] ''a ddos attack'' = Inr False"
proof (intro conjI)
  have idx: "py_int ''0'' = Some 0" by code_simp
  show "admin_remove_rule True (Some ''0'')
          \<lparr>RULES_PATH = Doc (JArr [JStr ''ddos'', JStr ''exploit'']),
           BLOCKED_PATTERNS = [JStr ''ddos'', JStr ''exploit'']\<rparr>
        = (\<lparr>RULES_PATH = Doc (JArr [JStr ''exploit'']),
            BLOCKED_PATTERNS = [JStr ''ddos'', JStr ''exploit'']\<rparr>,
           Some (Flash_removed (JStr ''ddos'')))"
    by (simp add: admin_remove_rule_def idx save_rules_def)
next
  show "is_malicious re_search [JStr ''ddos'', JStr ''exploit''] ''a ddos attack'' = Inr True"
    by code_simp
next
  show "is_malicious re_search [JStr ''exploit''] ''a ddos attack'' = Inr False"
    by code_simp
qed

end
